theory Spec2Isabelle
  imports Main "HOL-Library.AList" "HOL-Library.Multiset" "HOL-Library.Sublist"
begin

section \<open>Type descriptors\<close>

text \<open>
  The registry of \<^verbatim>\<open>runtime/codegen/registry.go\<close> identifies a component by the
  \<^verbatim>\<open>reflect.Type\<close> of its interface. The code reads a type descriptor only through
  \<^verbatim>\<open>Kind()\<close>, \<^verbatim>\<open>PkgPath()\<close>, \<^verbatim>\<open>Name()\<close>, \<^verbatim>\<open>NumField()\<close> and \<^verbatim>\<open>Field(i)\<close>, and compares
  descriptors for equality (as map keys). A descriptor is modelled by exactly these
  observations; a \<^verbatim>\<open>reflect.Type\<close> that may be \<^verbatim>\<open>nil\<close> is an \<open>rtype option\<close>.
\<close>

datatype kind =
    Invalid | Bool | Int | Int8 | Int16 | Int32 | Int64
  | Uint | Uint8 | Uint16 | Uint32 | Uint64 | Uintptr
  | Float32 | Float64 | Complex64 | Complex128
  | Array | Chan | Func | Interface | Map | Pointer | Slice | String | Struct
  | UnsafePointer

datatype rtype =
  RType (PkgPath: string) (TypeName: string) (Kind: kind) (StructFields: "StructField list")
and StructField =
  StructField (FieldName: string) (FieldType: rtype)

text \<open>A function value is opaque; the code only compares it with \<^verbatim>\<open>nil\<close>.\<close>

datatype func = FuncValue nat

section \<open>Registration and registry\<close>

record Registration =
  Name :: string
  Iface :: "rtype option"
  Impl :: "rtype option"
  Routed :: bool
  Listeners :: "string list"
  NoRetry :: "int list"
  LocalStubFn :: "func option"
  ClientStubFn :: "func option"
  ServerStubFn :: "func option"
  ReflectStubFn :: "func option"
  RefData :: string

text \<open>
  Errors are kept structured: one constructor for each \<^verbatim>\<open>errors.New\<close> or \<^verbatim>\<open>fmt.Errorf\<close>
  call of the file, holding the arguments of the format string. \<open>RegisterErr n e\<close> is
  \<^verbatim>\<open>fmt.Errorf("Register(%q): %w", n, e)\<close>, an error that wraps \<open>e\<close>.
\<close>

datatype error =
    ErrorsNew string
  | RegisterErr string error
  | AlreadyRegistered string "rtype option" "rtype option"
  | UnexpectedConfig string "rtype option"
  | BadConfig "rtype option" error

text \<open>
  A Go map is an association list with distinct keys, or \<open>None\<close> for the \<^verbatim>\<open>nil\<close> map.
  Reading a \<^verbatim>\<open>nil\<close> map finds nothing.
\<close>

type_synonym ('k, 'v) gomap = "('k \<times> 'v) list option"

definition lookup :: "('k, 'v) gomap \<Rightarrow> 'k \<Rightarrow> 'v option" where
  "lookup m k = (case m of None \<Rightarrow> None | Some al \<Rightarrow> map_of al k)"

definition entries :: "('k, 'v) gomap \<Rightarrow> ('k \<times> 'v) list" where
  "entries m = (case m of None \<Rightarrow> [] | Some al \<Rightarrow> al)"

text \<open>
  The maps hold \<^verbatim>\<open>*Registration\<close>: a pointer is an address of the heap, and
  \<^verbatim>\<open>ptr := &reg\<close> takes the next free address. The mutex is not modelled: every
  operation runs alone.
\<close>

type_synonym ptr = nat

record registry =
  components :: "(rtype option, ptr) gomap"
  byName :: "(string, ptr) gomap"

record state =
  heap :: "ptr \<Rightarrow> Registration"
  nextAddr :: ptr
  globalRegistry :: registry

definition verifyRegistration :: "Registration \<Rightarrow> error option" where
  "verifyRegistration reg =
    (case Iface reg of
       None \<Rightarrow> Some (ErrorsNew ''missing component type'')
     | Some iface \<Rightarrow>
        if Kind iface \<noteq> Interface then Some (ErrorsNew ''component type is not an interface'')
        else (case Impl reg of
           None \<Rightarrow> Some (ErrorsNew ''missing implementation type'')
         | Some impl \<Rightarrow>
            if Kind impl \<noteq> Struct then Some (ErrorsNew ''implementation type is not a struct'')
            else if LocalStubFn reg = None then Some (ErrorsNew ''nil LocalStubFn'')
            else if ClientStubFn reg = None then Some (ErrorsNew ''nil ClientStubFn'')
            else if ServerStubFn reg = None then Some (ErrorsNew ''nil ServerStubFn'')
            else None))"

text \<open>
  \<^verbatim>\<open>register\<close> returns its error (\<open>None\<close> for \<^verbatim>\<open>nil\<close>) and the state it leaves. A \<^verbatim>\<open>nil\<close> map
  is replaced by an empty one before the two assignments, so both maps are written as the
  update of their entries, which are none for a \<^verbatim>\<open>nil\<close> map.
\<close>

definition register :: "Registration \<Rightarrow> state \<Rightarrow> error option \<times> state" where
  "register reg s =
    (case verifyRegistration reg of
       Some err \<Rightarrow> (Some (RegisterErr (Name reg) err), s)
     | None \<Rightarrow>
        (case lookup (components (globalRegistry s)) (Iface reg) of
           Some old \<Rightarrow>
             (Some (AlreadyRegistered (Name reg) (Impl (heap s old)) (Impl reg)), s)
         | None \<Rightarrow>
             let ptr = nextAddr s in
             (None,
              s\<lparr>heap := (heap s)(ptr := reg),
                nextAddr := Suc ptr,
                globalRegistry :=
                  \<lparr>components =
                     Some (AList.update (Iface reg) ptr (entries (components (globalRegistry s)))),
                   byName =
                     Some (AList.update (Name reg) ptr (entries (byName (globalRegistry s))))\<rparr>\<rparr>)))"

text \<open>
  \<^verbatim>\<open>find\<close> returns the pair \<^verbatim>\<open>(reg, ok)\<close> of the map read: \<open>Some p\<close> is \<^verbatim>\<open>(p, true)\<close> and
  \<open>None\<close> is \<^verbatim>\<open>(nil, false)\<close>.
\<close>

definition find_registry :: "string \<Rightarrow> state \<Rightarrow> ptr option" where
  "find_registry path s = lookup (byName (globalRegistry s)) path"

text \<open>
  \<^verbatim>\<open>range\<close> over a Go map visits every entry once, in an order the language leaves
  open. The order is a parameter of the model: the choice list picks, at each step, which
  of the remaining entries comes next.
\<close>

fun rangeOrder :: "nat list \<Rightarrow> 'a list \<Rightarrow> 'a list" where
  "rangeOrder [] xs = xs"
| "rangeOrder (c # cs) xs =
    (if xs = [] then []
     else let i = c mod length xs
          in xs ! i # rangeOrder cs (take i xs @ drop (Suc i) xs))"

definition allComponents :: "nat list \<Rightarrow> state \<Rightarrow> ptr list" where
  "allComponents order s =
     map snd (rangeOrder order (entries (components (globalRegistry s))))"

definition Registered :: "nat list \<Rightarrow> state \<Rightarrow> ptr list" where
  "Registered order s = allComponents order s"

text \<open>\<^verbatim>\<open>Register\<close> panics with the error of \<^verbatim>\<open>register\<close>: \<open>Inl\<close> is the panic.\<close>

definition Register :: "Registration \<Rightarrow> state \<Rightarrow> error + state" where
  "Register reg s = (case register reg s of (Some err, _) \<Rightarrow> Inl err | (None, s') \<Rightarrow> Inr s')"

text \<open>
  The process starts with the zero value of \<^verbatim>\<open>globalRegistry\<close> (both maps \<^verbatim>\<open>nil\<close>) and
  nothing allocated.
\<close>

definition zeroRegistration :: Registration where
  "zeroRegistration =
     \<lparr>Name = [], Iface = None, Impl = None, Routed = False, Listeners = [], NoRetry = [],
      LocalStubFn = None, ClientStubFn = None, ServerStubFn = None, ReflectStubFn = None,
      RefData = []\<rparr>"

definition initState :: state where
  "initState =
     \<lparr>heap = (\<lambda>_. zeroRegistration), nextAddr = 0,
      globalRegistry = \<lparr>components = None, byName = None\<rparr>\<rparr>"

text \<open>A sequence of \<^verbatim>\<open>register\<close> calls; a call that returns an error leaves the state as it is
  and the next call goes on.\<close>

definition registerSeq :: "Registration list \<Rightarrow> state \<Rightarrow> state" where
  "registerSeq regs s = foldl (\<lambda>s reg. snd (register reg s)) s regs"

text \<open>A sequence of \<^verbatim>\<open>Register\<close> calls, as the generated \<^verbatim>\<open>init\<close> functions make them; the
  first panic ends the process.\<close>

fun RegisterAll :: "Registration list \<Rightarrow> state \<Rightarrow> error + state" where
  "RegisterAll [] s = Inr s"
| "RegisterAll (reg # regs) s =
    (case Register reg s of Inl err \<Rightarrow> Inl err | Inr s' \<Rightarrow> RegisterAll regs s')"

section \<open>Configuration validation\<close>

text \<open>
  \<^verbatim>\<open>config.Config\<close> and \<^verbatim>\<open>runtime.ParseConfigSection\<close> belong to other packages; they are
  parameters. \<open>Config impl\<close> stands for \<^verbatim>\<open>config.Config(reflect.New(impl))\<close>, \<open>None\<close> when
  it returns \<^verbatim>\<open>nil\<close>. \<^verbatim>\<open>reflect.New\<close> panics on a \<^verbatim>\<open>nil\<close> type.
\<close>

datatype panic = ReflectNewNil | NilTypeMethod | NumFieldOfNonStruct

definition ComponentConfigValidator ::
  "(rtype \<Rightarrow> 'c option) \<Rightarrow> (string \<Rightarrow> string \<Rightarrow> (string \<times> string) list \<Rightarrow> 'c \<Rightarrow> error option)
   \<Rightarrow> string \<Rightarrow> string \<Rightarrow> state \<Rightarrow> panic + error option" where
  "ComponentConfigValidator Config ParseConfigSection path cfg s =
    (case find_registry path s of
       None \<Rightarrow> Inr None
     | Some info \<Rightarrow>
        (case Impl (heap s info) of
           None \<Rightarrow> Inl ReflectNewNil
         | Some impl \<Rightarrow>
            (case Config impl of
               None \<Rightarrow>
                 Inr (Some (UnexpectedConfig (Name (heap s info)) (Iface (heap s info))))
             | Some componentConfig \<Rightarrow>
                 (case ParseConfigSection path [] [(path, cfg)] componentConfig of
                    Some err \<Rightarrow> Inr (Some (BadConfig (Iface (heap s info)) err))
                  | None \<Rightarrow> Inr None))))"

section \<open>Call graph\<close>

record CallEdge =
  Caller :: "rtype option"
  Callee :: "rtype option"

definition HasPrefix :: "string \<Rightarrow> string \<Rightarrow> bool" where
  "HasPrefix s pre \<longleftrightarrow> length pre \<le> length s \<and> take (length pre) s = pre"

text \<open>
  The test on a field's type \<^verbatim>\<open>ref\<close>, with the callee \<^verbatim>\<open>ref.Field(0).Type\<close> it gives when it
  holds. \<^verbatim>\<open>&&\<close> is evaluated left to right, so \<^verbatim>\<open>NumField\<close> and \<^verbatim>\<open>Field(0)\<close> are only
  reached on a struct with one field.
\<close>

definition refCallee :: "rtype \<Rightarrow> rtype option" where
  "refCallee ref =
    (if PkgPath ref = ''github.com/ServiceWeaver/weaver'' \<and>
        HasPrefix (TypeName ref) ''Ref['' \<and>
        Kind ref = Struct
     then (case StructFields ref of
             [f] \<Rightarrow> if FieldName f = ''value'' then Some (FieldType f) else None
           | _ \<Rightarrow> None)
     else None)"

text \<open>The inner loop over \<^verbatim>\<open>impl.Field(i)\<close>, \<open>i = 0, ..., n - 1\<close>, appending to \<^verbatim>\<open>result\<close>.\<close>

fun fieldLoop :: "rtype option \<Rightarrow> StructField list \<Rightarrow> CallEdge list \<Rightarrow> CallEdge list" where
  "fieldLoop iface [] result = result"
| "fieldLoop iface (f # fs) result =
    fieldLoop iface fs
      (case refCallee (FieldType f) of
         Some callee \<Rightarrow> result @ [\<lparr>Caller = iface, Callee = Some callee\<rparr>]
       | None \<Rightarrow> result)"

text \<open>The outer loop over \<^verbatim>\<open>Registered()\<close>. \<^verbatim>\<open>impl.NumField()\<close> panics when \<^verbatim>\<open>impl\<close> is
  \<^verbatim>\<open>nil\<close> or not a struct.\<close>

fun regLoop :: "(ptr \<Rightarrow> Registration) \<Rightarrow> ptr list \<Rightarrow> CallEdge list \<Rightarrow> panic + CallEdge list" where
  "regLoop h [] result = Inr result"
| "regLoop h (reg # regs) result =
    (case Impl (h reg) of
       None \<Rightarrow> Inl NilTypeMethod
     | Some impl \<Rightarrow>
        if Kind impl \<noteq> Struct then Inl NumFieldOfNonStruct
        else regLoop h regs (fieldLoop (Iface (h reg)) (StructFields impl) result))"

definition CallGraph :: "nat list \<Rightarrow> state \<Rightarrow> panic + CallEdge list" where
  "CallGraph order s = regLoop (heap s) (Registered order s) []"

section \<open>Specification-level definitions\<close>

text \<open>
  The validator's checks as the specification lists them, in its order, each with the
  error it reports. A check on the kind of a descriptor fails when the descriptor is
  absent.
\<close>

definition validatorChecks :: "((Registration \<Rightarrow> bool) \<times> error) list" where
  "validatorChecks =
    [(\<lambda>reg. Iface reg \<noteq> None, ErrorsNew ''missing component type''),
     (\<lambda>reg. case Iface reg of None \<Rightarrow> False | Some t \<Rightarrow> Kind t = Interface,
        ErrorsNew ''component type is not an interface''),
     (\<lambda>reg. Impl reg \<noteq> None, ErrorsNew ''missing implementation type''),
     (\<lambda>reg. case Impl reg of None \<Rightarrow> False | Some t \<Rightarrow> Kind t = Struct,
        ErrorsNew ''implementation type is not a struct''),
     (\<lambda>reg. LocalStubFn reg \<noteq> None, ErrorsNew ''nil LocalStubFn''),
     (\<lambda>reg. ClientStubFn reg \<noteq> None, ErrorsNew ''nil ClientStubFn''),
     (\<lambda>reg. ServerStubFn reg \<noteq> None, ErrorsNew ''nil ServerStubFn'')]"

definition firstFailure ::
  "((Registration \<Rightarrow> bool) \<times> error) list \<Rightarrow> Registration \<Rightarrow> error option" where
  "firstFailure checks reg = map_option snd (List.find (\<lambda>c. \<not> fst c reg) checks)"

text \<open>
  The dependency references of the specification. Its reference wrapper is the runtime's
  generic type \<^verbatim>\<open>weaver.Ref[T]\<close>: a type of the package \<^verbatim>\<open>github.com/ServiceWeaver/weaver\<close>
  whose name is \<^verbatim>\<open>Ref\<close> applied to a type parameter, of struct kind, with exactly one field,
  called \<^verbatim>\<open>value\<close>, whose type is the interface descriptor of the component referred to.
  \<open>referencedInterface t\<close> is that interface descriptor when \<open>t\<close> is such a wrapper, and
  nothing for every other type.
\<close>

fun referencedInterface :: "rtype \<Rightarrow> rtype option" where
  "referencedInterface (RType pkg name k [StructField fname t]) =
     (if pkg = ''github.com/ServiceWeaver/weaver'' \<and> prefix ''Ref['' name \<and> k = Struct \<and>
         fname = ''value''
      then Some t else None)"
| "referencedInterface (RType pkg name k []) = None"
| "referencedInterface (RType pkg name k (f # g # fs)) = None"

text \<open>The interfaces an implementation refers to: one for each of its fields whose type
  is a reference wrapper, in field order, repetitions kept.\<close>

definition dependencyReferences :: "rtype \<Rightarrow> rtype list" where
  "dependencyReferences impl =
     concat (map (\<lambda>f. case referencedInterface (FieldType f) of None \<Rightarrow> [] | Some t \<Rightarrow> [t])
               (StructFields impl))"

text \<open>
  The edges one registration contributes: one edge from its interface descriptor to the
  referenced interface descriptor for each dependency reference of its implementation.
\<close>

definition edgesOf :: "Registration \<Rightarrow> CallEdge list" where
  "edgesOf reg =
    (case Impl reg of
       None \<Rightarrow> []
     | Some impl \<Rightarrow>
         map (\<lambda>callee. \<lparr>Caller = Iface reg, Callee = Some callee\<rparr>) (dependencyReferences impl))"

text \<open>
  What every state built by \<^verbatim>\<open>register\<close> satisfies: keys are unique (they are map keys),
  every pointer of the interface index is allocated and points to a verified registration
  with that interface whose name is a key of the name index, and every pointer of the name
  index points to a registration with that name and is the entry of the interface index for
  its interface.
\<close>

definition registryInv :: "state \<Rightarrow> bool" where
  "registryInv s \<longleftrightarrow>
     distinct (map fst (entries (components (globalRegistry s)))) \<and>
     distinct (map fst (entries (byName (globalRegistry s)))) \<and>
     (\<forall>(k, p) \<in> set (entries (components (globalRegistry s))).
        p < nextAddr s \<and> Iface (heap s p) = k \<and> verifyRegistration (heap s p) = None \<and>
        Name (heap s p) \<in> fst ` set (entries (byName (globalRegistry s)))) \<and>
     (\<forall>(n, p) \<in> set (entries (byName (globalRegistry s))).
        Name (heap s p) = n \<and>
        (Iface (heap s p), p) \<in> set (entries (components (globalRegistry s))))"

section \<open>Example components\<close>

text \<open>
  Component \<open>A\<close> has no dependency; component \<open>B\<close> refers to \<open>A\<close> through two fields of
  type \<^verbatim>\<open>weaver.Ref[A]\<close>.
\<close>

definition ifaceA :: rtype where
  "ifaceA = RType ''app'' ''A'' Interface []"

definition ifaceB :: rtype where
  "ifaceB = RType ''app'' ''B'' Interface []"

definition refA :: rtype where
  "refA = RType ''github.com/ServiceWeaver/weaver'' ''Ref[app.A]'' Struct
            [StructField ''value'' ifaceA]"

definition implA :: rtype where
  "implA = RType ''app'' ''a'' Struct []"

definition implB :: rtype where
  "implB = RType ''app'' ''b'' Struct [StructField ''first'' refA, StructField ''second'' refA]"

definition regA :: Registration where
  "regA =
     \<lparr>Name = ''app/A'', Iface = Some ifaceA, Impl = Some implA, Routed = False,
      Listeners = [], NoRetry = [],
      LocalStubFn = Some (FuncValue 0), ClientStubFn = Some (FuncValue 1),
      ServerStubFn = Some (FuncValue 2), ReflectStubFn = Some (FuncValue 3),
      RefData = []\<rparr>"

definition regB :: Registration where
  "regB =
     \<lparr>Name = ''app/B'', Iface = Some ifaceB, Impl = Some implB, Routed = False,
      Listeners = [], NoRetry = [],
      LocalStubFn = Some (FuncValue 4), ClientStubFn = Some (FuncValue 5),
      ServerStubFn = Some (FuncValue 6), ReflectStubFn = Some (FuncValue 7),
      RefData = []\<rparr>"

text \<open>
  Component \<open>C\<close> refers to \<open>B\<close> through its last field. Its other fields have types that
  are not reference wrappers: a one-field struct of another name, a \<^verbatim>\<open>Ref\<close> of another
  package, a \<^verbatim>\<open>Ref\<close> with two fields, a \<^verbatim>\<open>Ref\<close> that is not a struct, a \<^verbatim>\<open>Ref\<close> whose field
  is not called \<^verbatim>\<open>value\<close>, and a type of the runtime's package that is not a \<^verbatim>\<open>Ref\<close>.
\<close>

definition ifaceC :: rtype where
  "ifaceC = RType ''app'' ''C'' Interface []"

definition refB :: rtype where
  "refB = RType ''github.com/ServiceWeaver/weaver'' ''Ref[app.B]'' Struct
            [StructField ''value'' ifaceB]"

definition implC :: rtype where
  "implC = RType ''app'' ''c'' Struct
     [StructField ''wrapped'' (RType ''app'' ''wrapper'' Struct [StructField ''inner'' ifaceA]),
      StructField ''foreign''
        (RType ''example.com/other'' ''Ref[app.A]'' Struct [StructField ''value'' ifaceA]),
      StructField ''two''
        (RType ''github.com/ServiceWeaver/weaver'' ''Ref[app.A]'' Struct
           [StructField ''value'' ifaceA, StructField ''extra'' ifaceA]),
      StructField ''pointer''
        (RType ''github.com/ServiceWeaver/weaver'' ''Ref[app.A]'' Pointer []),
      StructField ''misnamed''
        (RType ''github.com/ServiceWeaver/weaver'' ''Ref[app.A]'' Struct
           [StructField ''val'' ifaceA]),
      StructField ''listener''
        (RType ''github.com/ServiceWeaver/weaver'' ''Listener'' Struct
           [StructField ''value'' ifaceA]),
      StructField ''b'' refB]"

definition regC :: Registration where
  "regC =
     \<lparr>Name = ''app/C'', Iface = Some ifaceC, Impl = Some implC, Routed = False,
      Listeners = [], NoRetry = [],
      LocalStubFn = Some (FuncValue 8), ClientStubFn = Some (FuncValue 9),
      ServerStubFn = Some (FuncValue 10), ReflectStubFn = Some (FuncValue 11),
      RefData = []\<rparr>"

text \<open>A second implementation offered for the interface of \<open>A\<close>.\<close>

definition regA2 :: Registration where
  "regA2 = regA\<lparr>Name := ''app/A2'', Impl := Some implB\<rparr>"

text \<open>\<open>A\<close> without its server stub, and \<open>A\<close> without its reflective stub.\<close>

definition regNoServer :: Registration where
  "regNoServer = regA\<lparr>ServerStubFn := None\<rparr>"

definition regNoReflect :: Registration where
  "regNoReflect = regA\<lparr>ReflectStubFn := None\<rparr>"

text \<open>\<open>B\<close> under the name of \<open>A\<close>.\<close>

definition regBasA :: Registration where
  "regBasA = regB\<lparr>Name := ''app/A''\<rparr>"

text \<open>A candidate that violates several checks at once: only its interface is set.\<close>

definition regOnlyIface :: Registration where
  "regOnlyIface = zeroRegistration\<lparr>Name := ''app/X'', Iface := Some ifaceA\<rparr>"

text \<open>An implementation without configuration, and a parser that accepts everything.\<close>

definition noConfig :: "rtype \<Rightarrow> unit option" where
  "noConfig impl = None"

text \<open>A configuration for the implementation of \<open>B\<close> only.\<close>

definition configOnlyB :: "rtype \<Rightarrow> unit option" where
  "configOnlyB impl = (if impl = implB then Some () else None)"

definition parseAny :: "string \<Rightarrow> string \<Rightarrow> (string \<times> string) list \<Rightarrow> unit \<Rightarrow> error option" where
  "parseAny key shortKey sections dst = None"

definition stateA :: state where
  "stateA =
     \<lparr>heap = (\<lambda>_. zeroRegistration)(0 := regA), nextAddr = 1,
      globalRegistry =
        \<lparr>components = Some [(Some ifaceA, 0)], byName = Some [(''app/A'', 0)]\<rparr>\<rparr>"

definition stateAB :: state where
  "stateAB =
     \<lparr>heap = (\<lambda>_. zeroRegistration)(0 := regA, 1 := regB), nextAddr = 2,
      globalRegistry =
        \<lparr>components = Some [(Some ifaceA, 0), (Some ifaceB, 1)],
         byName = Some [(''app/A'', 0), (''app/B'', 1)]\<rparr>\<rparr>"

definition stateABC :: state where
  "stateABC =
     \<lparr>heap = (\<lambda>_. zeroRegistration)(0 := regA, 1 := regB, 2 := regC), nextAddr = 3,
      globalRegistry =
        \<lparr>components = Some [(Some ifaceA, 0), (Some ifaceB, 1), (Some ifaceC, 2)],
         byName = Some [(''app/A'', 0), (''app/B'', 1), (''app/C'', 2)]\<rparr>\<rparr>"

text \<open>The state after \<open>A\<close> and then \<open>B\<close> under the name of \<open>A\<close>: the name of \<open>A\<close> leads to
  \<open>B\<close>.\<close>

definition stateShadow :: state where
  "stateShadow =
     \<lparr>heap = (\<lambda>_. zeroRegistration)(0 := regA, 1 := regBasA), nextAddr = 2,
      globalRegistry =
        \<lparr>components = Some [(Some ifaceA, 0), (Some ifaceB, 1)],
         byName = Some [(''app/A'', 1)]\<rparr>\<rparr>"

definition edgeBA :: CallEdge where
  "edgeBA = \<lparr>Caller = Some ifaceB, Callee = Some ifaceA\<rparr>"

definition edgeCB :: CallEdge where
  "edgeCB = \<lparr>Caller = Some ifaceC, Callee = Some ifaceB\<rparr>"

section \<open>Basic facts\<close>

lemma entries_Some: "entries (Some al) = al"
  by (simp add: entries_def)

lemma lookup_entries: "map_of (entries m) k = lookup m k"
  by (simp add: lookup_def entries_def split: option.splits)

lemma lookup_update:
  "lookup (Some (AList.update k v al)) k' = (if k' = k then Some v else map_of al k')"
  by (simp add: lookup_def update_conv')

lemma lookup_set:
  "distinct (map fst (entries m)) \<Longrightarrow> lookup m k = Some v \<longleftrightarrow> (k, v) \<in> set (entries m)"
  by (simp add: lookup_entries[symmetric])

lemma update_fresh: "map_of al k = None \<Longrightarrow> AList.update k v al = al @ [(k, v)]"
  by (induction al) (auto split: if_splits)

lemma set_update_subset: "set (AList.update k v al) \<subseteq> insert (k, v) (set al)"
  by (induction al) auto

lemma fst_set_update: "fst ` set (AList.update k v al) = insert k (fst ` set al)"
proof -
  have "fst ` set (AList.update k v al) = dom (map_of (AList.update k v al))"
    by (simp add: dom_map_of_conv_image_fst)
  also have "\<dots> = insert k (dom (map_of al))"
    by (simp add: update_conv')
  finally show ?thesis by (simp add: dom_map_of_conv_image_fst)
qed

lemma verify_name: "verifyRegistration (reg\<lparr>Name := n\<rparr>) = verifyRegistration reg"
  by (simp add: verifyRegistration_def cong: option.case_cong if_cong)

lemma verify_missing_stub:
  "LocalStubFn reg = None \<or> ClientStubFn reg = None \<or> ServerStubFn reg = None
     \<Longrightarrow> verifyRegistration reg \<noteq> None"
  by (auto simp: verifyRegistration_def split: option.splits)

lemma verify_first_failure: "verifyRegistration reg = firstFailure validatorChecks reg"
  by (cases "Iface reg"; cases "Impl reg"; cases "LocalStubFn reg"; cases "ClientStubFn reg";
      cases "ServerStubFn reg")
     (simp_all add: verifyRegistration_def firstFailure_def validatorChecks_def)

subsection \<open>The two outcomes of \<^verbatim>\<open>register\<close>\<close>

lemma register_invalid:
  "verifyRegistration reg = Some e \<Longrightarrow> register reg s = (Some (RegisterErr (Name reg) e), s)"
  by (simp add: register_def)

lemma register_ok_iff:
  "fst (register reg s) = None \<longleftrightarrow>
     verifyRegistration reg = None \<and> lookup (components (globalRegistry s)) (Iface reg) = None"
  by (auto simp: register_def Let_def split: option.splits)

lemma register_ok_state:
  assumes "fst (register reg s) = None"
  shows "snd (register reg s) =
           s\<lparr>heap := (heap s)(nextAddr s := reg),
             nextAddr := Suc (nextAddr s),
             globalRegistry :=
               \<lparr>components =
                  Some (AList.update (Iface reg) (nextAddr s)
                          (entries (components (globalRegistry s)))),
                byName =
                  Some (AList.update (Name reg) (nextAddr s)
                          (entries (byName (globalRegistry s))))\<rparr>\<rparr>"
  using assms by (auto simp: register_def Let_def split: option.splits)

lemma register_fail_state: "fst (register reg s) \<noteq> None \<Longrightarrow> snd (register reg s) = s"
  by (auto simp: register_def Let_def split: option.splits)

lemma lookup_register_ok:
  assumes "fst (register reg s) = None"
  shows "lookup (components (globalRegistry (snd (register reg s)))) k =
          (if k = Iface reg then Some (nextAddr s)
           else lookup (components (globalRegistry s)) k)"
  by (simp add: register_ok_state[OF assms] lookup_update lookup_entries)

lemma heap_register_old: "p < nextAddr s \<Longrightarrow> heap (snd (register reg s)) p = heap s p"
  by (cases "fst (register reg s) = None")
     (simp_all add: register_ok_state register_fail_state)

lemma Register_Inr:
  "Register reg s = Inr s' \<longleftrightarrow> fst (register reg s) = None \<and> s' = snd (register reg s)"
  by (cases "register reg s") (auto simp: Register_def split: option.splits)

subsection \<open>The invariant\<close>

lemma registryInv_init: "registryInv initState"
  by (simp add: registryInv_def initState_def entries_def)

lemma registryInv_register_ok:
  assumes inv: "registryInv s" and ok: "fst (register reg s) = None"
  shows "registryInv (snd (register reg s))"
proof -
  let ?C = "entries (components (globalRegistry s))"
  let ?N = "entries (byName (globalRegistry s))"
  let ?a = "nextAddr s"
  let ?s' = "snd (register reg s)"
  from ok have v: "verifyRegistration reg = None"
    and fresh: "map_of ?C (Iface reg) = None"
    by (simp_all add: register_ok_iff lookup_entries)
  have C': "AList.update (Iface reg) ?a ?C = ?C @ [(Iface reg, ?a)]"
    using fresh by (rule update_fresh)
  from inv have dC: "distinct (map fst ?C)" and dN: "distinct (map fst ?N)"
    and iC: "\<And>k p. (k, p) \<in> set ?C \<Longrightarrow> p < ?a \<and> Iface (heap s p) = k \<and>
              verifyRegistration (heap s p) = None \<and> Name (heap s p) \<in> fst ` set ?N"
    and iN: "\<And>n p. (n, p) \<in> set ?N \<Longrightarrow>
              Name (heap s p) = n \<and> (Iface (heap s p), p) \<in> set ?C"
    by (auto simp: registryInv_def)
  have ltN: "\<And>n p. (n, p) \<in> set ?N \<Longrightarrow> p < ?a"
    using iN iC by blast
  have 1: "distinct (map fst (?C @ [(Iface reg, ?a)]))"
    using dC fresh by (simp add: map_of_eq_None_iff)
  have 2: "distinct (map fst (AList.update (Name reg) ?a ?N))"
    using dN by (simp add: distinct_update)
  have 3: "p < Suc ?a \<and> Iface (((heap s)(?a := reg)) p) = k \<and>
           verifyRegistration (((heap s)(?a := reg)) p) = None \<and>
           Name (((heap s)(?a := reg)) p) \<in> fst ` set (AList.update (Name reg) ?a ?N)"
    if "(k, p) \<in> set (?C @ [(Iface reg, ?a)])" for k p
  proof (cases "(k, p) \<in> set ?C")
    case True
    with iC[OF True] show ?thesis by (auto simp: fst_set_update)
  next
    case False
    with that have "k = Iface reg" "p = ?a" by auto
    then show ?thesis using v by (simp add: fst_set_update)
  qed
  have 4: "Name (((heap s)(?a := reg)) p) = n \<and>
           (Iface (((heap s)(?a := reg)) p), p) \<in> set (?C @ [(Iface reg, ?a)])"
    if "(n, p) \<in> set (AList.update (Name reg) ?a ?N)" for n p
  proof (cases "(n, p) \<in> set ?N \<and> n \<noteq> Name reg")
    case True
    then have "p < ?a" using ltN by blast
    with True iN[of n p] show ?thesis by auto
  next
    case False
    have "n = Name reg \<and> p = ?a"
    proof (cases "n = Name reg")
      case True
      have "map_of (AList.update (Name reg) ?a ?N) n = Some p"
        using that 2 by simp
      then show ?thesis using True by (simp add: update_conv')
    next
      case F: False
      with that have "(n, p) \<in> set ?N"
        using set_update_subset[of "Name reg" ?a ?N] by auto
      with F False show ?thesis by simp
    qed
    then show ?thesis by simp
  qed
  have E1: "entries (components (globalRegistry ?s')) = ?C @ [(Iface reg, ?a)]"
    by (simp add: register_ok_state[OF ok] C' entries_Some)
  have E2: "entries (byName (globalRegistry ?s')) = AList.update (Name reg) ?a ?N"
    by (simp add: register_ok_state[OF ok] entries_Some)
  have H: "heap ?s' = (heap s)(?a := reg)" and Nx: "nextAddr ?s' = Suc ?a"
    by (simp_all add: register_ok_state[OF ok])
  show ?thesis
    unfolding registryInv_def E1 E2 H Nx
    using 1 2 3 4 by (intro conjI ballI) (blast+)
qed

lemma registryInv_register: "registryInv s \<Longrightarrow> registryInv (snd (register reg s))"
  by (cases "fst (register reg s) = None")
     (simp_all add: registryInv_register_ok register_fail_state)

lemma registryInv_registerSeq_from: "registryInv s \<Longrightarrow> registryInv (registerSeq regs s)"
  unfolding registerSeq_def by (induction regs arbitrary: s) (simp_all add: registryInv_register)

lemma registryInv_registerSeq: "registryInv (registerSeq regs initState)"
  by (simp add: registryInv_registerSeq_from registryInv_init)

lemma stored_valid:
  assumes "registryInv s"
    and "p \<in> snd ` set (entries (components (globalRegistry s))) \<union>
             snd ` set (entries (byName (globalRegistry s)))"
  shows "verifyRegistration (heap s p) = None"
  using assms unfolding registryInv_def by fastforce

lemma indexes_of_inv:
  assumes "registryInv s"
  shows "(\<forall>n p. lookup (byName (globalRegistry s)) n = Some p \<longrightarrow>
            Name (heap s p) = n \<and>
            lookup (components (globalRegistry s)) (Iface (heap s p)) = Some p)
      \<and> (\<forall>k p. lookup (components (globalRegistry s)) k = Some p \<longrightarrow>
            Iface (heap s p) = k \<and>
            lookup (byName (globalRegistry s)) (Name (heap s p)) \<noteq> None)
      \<and> (distinct (map (\<lambda>e. Name (heap s (snd e))) (entries (components (globalRegistry s)))) \<longrightarrow>
            set (map snd (entries (components (globalRegistry s)))) =
            set (map snd (entries (byName (globalRegistry s)))))"
proof -
  let ?C = "entries (components (globalRegistry s))"
  let ?N = "entries (byName (globalRegistry s))"
  from assms have dC: "distinct (map fst ?C)" and dN: "distinct (map fst ?N)"
    and iC: "\<And>k p. (k, p) \<in> set ?C \<Longrightarrow> p < nextAddr s \<and> Iface (heap s p) = k \<and>
              verifyRegistration (heap s p) = None \<and> Name (heap s p) \<in> fst ` set ?N"
    and iN: "\<And>n p. (n, p) \<in> set ?N \<Longrightarrow>
              Name (heap s p) = n \<and> (Iface (heap s p), p) \<in> set ?C"
    by (auto simp: registryInv_def)
  have a: "\<forall>n p. lookup (byName (globalRegistry s)) n = Some p \<longrightarrow>
            Name (heap s p) = n \<and>
            lookup (components (globalRegistry s)) (Iface (heap s p)) = Some p"
    using iN by (simp add: lookup_set dC dN)
  have b: "\<forall>k p. lookup (components (globalRegistry s)) k = Some p \<longrightarrow>
            Iface (heap s p) = k \<and>
            lookup (byName (globalRegistry s)) (Name (heap s p)) \<noteq> None"
  proof (intro allI impI)
    fix k p assume "lookup (components (globalRegistry s)) k = Some p"
    then have m: "(k, p) \<in> set ?C" by (simp add: lookup_set dC)
    from iC[OF m] have "Name (heap s p) \<in> fst ` set ?N" by simp
    then have "map_of ?N (Name (heap s p)) \<noteq> None" by (simp add: map_of_eq_None_iff)
    with iC[OF m]
    show "Iface (heap s p) = k \<and> lookup (byName (globalRegistry s)) (Name (heap s p)) \<noteq> None"
      by (simp add: lookup_entries)
  qed
  have c: "set (map snd ?C) = set (map snd ?N)"
    if d: "distinct (map (\<lambda>e. Name (heap s (snd e))) ?C)"
  proof
    show "set (map snd ?N) \<subseteq> set (map snd ?C)"
      using iN by force
    show "set (map snd ?C) \<subseteq> set (map snd ?N)"
    proof
      fix p assume "p \<in> set (map snd ?C)"
      then obtain k where m: "(k, p) \<in> set ?C" by auto
      from iC[OF m] obtain p' where n: "(Name (heap s p), p') \<in> set ?N" by auto
      from iN[OF n] have e: "Name (heap s p') = Name (heap s p)"
        and m': "(Iface (heap s p'), p') \<in> set ?C" by simp_all
      from d have "inj_on (\<lambda>e. Name (heap s (snd e))) (set ?C)"
        by (simp add: distinct_map)
      from inj_onD[OF this _ m m'] e have "p = p'" by simp
      with n show "p \<in> set (map snd ?N)" by force
    qed
  qed
  from a b c show ?thesis by blast
qed

subsection \<open>Iteration over the interface index\<close>

lemma mset_rangeOrder: "mset (rangeOrder order xs) = mset xs"
proof (induction order arbitrary: xs)
  case Nil
  then show ?case by simp
next
  case (Cons c cs)
  show ?case
  proof (cases "xs = []")
    case True
    then show ?thesis by simp
  next
    case False
    let ?i = "c mod length xs"
    from False have lt: "?i < length xs" by simp
    have "mset xs = mset (take ?i xs @ xs ! ?i # drop (Suc ?i) xs)"
      using id_take_nth_drop[OF lt] by simp
    then show ?thesis using False Cons.IH by (simp add: Let_def)
  qed
qed

text \<open>Every order of the entries is the order of some choice list.\<close>

lemma rangeOrder_any_order: "mset ys = mset xs \<Longrightarrow> \<exists>order. rangeOrder order xs = ys"
proof (induction ys arbitrary: xs)
  case Nil
  then have "rangeOrder [] xs = []" by simp
  then show ?case by blast
next
  case (Cons y ys)
  from Cons.prems have "y \<in> set xs" by (metis list.set_intros(1) set_mset_mset)
  then obtain i where i: "i < length xs" "xs ! i = y" by (auto simp: in_set_conv_nth)
  let ?rest = "take i xs @ drop (Suc i) xs"
  have "mset xs = mset ?rest + {#y#}"
    using id_take_nth_drop[OF i(1)] i(2) by (metis add_mset_add_single mset.simps(2) mset_append union_mset_add_mset_right)
  with Cons.prems have "mset ys = mset ?rest" by simp
  from Cons.IH[OF this] obtain cs where cs: "rangeOrder cs ?rest = ys" by blast
  from i have ne: "xs \<noteq> []" by auto
  have "rangeOrder (i # cs) xs = y # ys"
    using i ne cs by (simp add: Let_def)
  then show ?case by blast
qed

lemma mset_allComponents:
  "mset (allComponents order s) = mset (map snd (entries (components (globalRegistry s))))"
  by (simp add: allComponents_def mset_rangeOrder)

lemma set_allComponents:
  "set (allComponents order s) = snd ` set (entries (components (globalRegistry s)))"
proof -
  have "set (allComponents order s) = set_mset (mset (allComponents order s))" by simp
  also have "\<dots> = set (map snd (entries (components (globalRegistry s))))"
    by (simp only: mset_allComponents set_mset_mset)
  finally show ?thesis by simp
qed

lemma length_allComponents:
  "length (allComponents order s) = length (entries (components (globalRegistry s)))"
proof -
  have "length (allComponents order s) = size (mset (allComponents order s))" by simp
  also have "\<dots> = length (map snd (entries (components (globalRegistry s))))"
    by (simp only: mset_allComponents size_mset)
  finally show ?thesis by simp
qed

lemma allComponents_allocated:
  "registryInv s \<Longrightarrow> p \<in> set (allComponents order s) \<Longrightarrow> p < nextAddr s"
  unfolding set_allComponents registryInv_def by fastforce

lemma snapshot_of_inv:
  assumes "registryInv s"
  shows "map (heap (snd (register reg s))) (allComponents order s) =
           map (heap s) (allComponents order s)
     \<and> length (allComponents order s) = length (entries (components (globalRegistry s)))
     \<and> (fst (register reg s) = None \<longrightarrow>
          length (allComponents order' (snd (register reg s))) =
            Suc (length (allComponents order s)))"
proof -
  have 1: "map (heap (snd (register reg s))) (allComponents order s) =
             map (heap s) (allComponents order s)"
    using allComponents_allocated[OF assms] by (simp add: heap_register_old)
  have 3: "length (allComponents order' (snd (register reg s))) =
             Suc (length (allComponents order s))"
    if ok: "fst (register reg s) = None"
  proof -
    from ok have fresh: "map_of (entries (components (globalRegistry s))) (Iface reg) = None"
      by (simp add: register_ok_iff lookup_entries)
    show ?thesis
      by (simp add: length_allComponents register_ok_state[OF ok] entries_Some
            update_fresh[OF fresh])
  qed
  from 1 3 show ?thesis by (simp add: length_allComponents)
qed

subsection \<open>The loops of \<^verbatim>\<open>CallGraph\<close>\<close>

text \<open>The test of the code and the reference wrapper of the specification agree.\<close>

lemma HasPrefix_prefix: "HasPrefix s pre \<longleftrightarrow> prefix pre s"
proof
  assume "HasPrefix s pre"
  then have "take (length pre) s = pre" by (simp add: HasPrefix_def)
  then have "s = pre @ drop (length pre) s" by (metis append_take_drop_id)
  then show "prefix pre s" by (rule prefixI)
next
  assume "prefix pre s"
  then obtain zs where "s = pre @ zs" by (rule prefixE)
  then show "HasPrefix s pre" by (simp add: HasPrefix_def)
qed

lemma refCallee_referencedInterface: "refCallee ref = referencedInterface ref"
proof (cases ref)
  case (RType pkg name k fs)
  show ?thesis
  proof (cases fs)
    case Nil
    with RType show ?thesis by (simp add: refCallee_def)
  next
    case (Cons f gs)
    show ?thesis
    proof (cases gs)
      case Nil
      obtain fname t where f: "f = StructField fname t" by (cases f)
      from RType Cons Nil f show ?thesis
        by (simp add: refCallee_def HasPrefix_prefix)
    next
      case (Cons g hs)
      with RType \<open>fs = f # gs\<close> show ?thesis by (simp add: refCallee_def)
    qed
  qed
qed

lemma fieldLoop_eq:
  "fieldLoop iface fs result =
     result @ map (\<lambda>callee. \<lparr>Caller = iface, Callee = Some callee\<rparr>)
                (concat (map (\<lambda>f. case referencedInterface (FieldType f) of
                                     None \<Rightarrow> [] | Some t \<Rightarrow> [t]) fs))"
  by (induction fs arbitrary: result)
     (simp_all add: refCallee_referencedInterface split: option.splits)

lemma regLoop_eq:
  assumes "\<forall>p \<in> set ps. verifyRegistration (h p) = None"
  shows "regLoop h ps result = Inr (result @ concat (map (\<lambda>p. edgesOf (h p)) ps))"
  using assms
proof (induction ps arbitrary: result)
  case Nil
  then show ?case by simp
next
  case (Cons p ps)
  from Cons.prems have "verifyRegistration (h p) = None" by simp
  then obtain impl where i: "Impl (h p) = Some impl" and k: "Kind impl = Struct"
    by (auto simp: verifyRegistration_def split: option.splits if_splits)
  from Cons.prems have "\<forall>p \<in> set ps. verifyRegistration (h p) = None" by simp
  from Cons.IH[OF this] show ?case
    by (simp add: i k fieldLoop_eq edgesOf_def dependencyReferences_def)
qed

lemma CallGraph_of_inv:
  assumes "registryInv s"
  shows "CallGraph order s =
           Inr (concat (map (\<lambda>p. edgesOf (heap s p)) (allComponents order s)))"
proof -
  have "\<forall>p \<in> set (allComponents order s). verifyRegistration (heap s p) = None"
    using stored_valid[OF assms] by (simp add: set_allComponents)
  from regLoop_eq[OF this] show ?thesis
    by (simp add: CallGraph_def Registered_def)
qed

lemma mset_concat_map: "mset (concat (map f xs)) = (\<Sum>x\<in>#mset xs. mset (f x))"
  by (induction xs) simp_all

lemma mset_concat_perm:
  "mset xs = mset ys \<Longrightarrow> mset (concat (map f xs)) = mset (concat (map f ys))"
  by (simp add: mset_concat_map)

subsection \<open>Sequences of \<^verbatim>\<open>Register\<close> calls\<close>

lemma RegisterAll_stored:
  assumes "RegisterAll regs s0 = Inr s" and "registryInv s0"
  shows "registryInv s \<and>
         mset (map (\<lambda>e. heap s (snd e)) (entries (components (globalRegistry s)))) =
         mset (map (\<lambda>e. heap s0 (snd e)) (entries (components (globalRegistry s0)))) + mset regs"
  using assms
proof (induction regs arbitrary: s0)
  case Nil
  then show ?case by simp
next
  case (Cons reg regs)
  let ?s1 = "snd (register reg s0)"
  from Cons.prems(1) have ok: "fst (register reg s0) = None"
    and rest: "RegisterAll regs ?s1 = Inr s"
    by (auto simp: Register_Inr split: sum.splits)
  have inv1: "registryInv ?s1" using Cons.prems(2) by (rule registryInv_register)
  from ok have fresh: "map_of (entries (components (globalRegistry s0))) (Iface reg) = None"
    by (simp add: register_ok_iff lookup_entries)
  have lt: "\<And>e. e \<in> set (entries (components (globalRegistry s0))) \<Longrightarrow> snd e < nextAddr s0"
    using Cons.prems(2) unfolding registryInv_def by fastforce
  have "map (\<lambda>e. heap ?s1 (snd e)) (entries (components (globalRegistry ?s1))) =
        map (\<lambda>e. heap s0 (snd e)) (entries (components (globalRegistry s0))) @ [reg]"
  proof -
    have "\<forall>e \<in> set (entries (components (globalRegistry s0))). snd e \<noteq> nextAddr s0"
      using lt by fastforce
    then show ?thesis
      by (simp add: register_ok_state[OF ok] entries_Some update_fresh[OF fresh])
  qed
  with Cons.IH[OF rest inv1] show ?case by simp
qed

lemma RegisterAll_ok_iff:
  "(\<exists>s. RegisterAll regs s0 = Inr s) \<longleftrightarrow>
     (\<forall>r \<in> set regs. verifyRegistration r = None \<and>
        lookup (components (globalRegistry s0)) (Iface r) = None)
     \<and> distinct (map Iface regs)"
proof (induction regs arbitrary: s0)
  case Nil
  then show ?case by simp
next
  case (Cons reg regs)
  show ?case
  proof (cases "fst (register reg s0) = None")
    case True
    let ?s1 = "snd (register reg s0)"
    have "(\<exists>s. RegisterAll (reg # regs) s0 = Inr s) \<longleftrightarrow> (\<exists>s. RegisterAll regs ?s1 = Inr s)"
    proof -
      have "Register reg s0 = Inr ?s1" using True by (simp add: Register_Inr)
      then show ?thesis by simp
    qed
    also have "\<dots> \<longleftrightarrow> (\<forall>r \<in> set regs. verifyRegistration r = None \<and>
          lookup (components (globalRegistry ?s1)) (Iface r) = None) \<and> distinct (map Iface regs)"
      by (rule Cons.IH)
    also have "\<dots> \<longleftrightarrow> (\<forall>r \<in> set (reg # regs). verifyRegistration r = None \<and>
          lookup (components (globalRegistry s0)) (Iface r) = None) \<and>
          distinct (map Iface (reg # regs))"
    proof -
      have v: "verifyRegistration reg = None"
        and l: "lookup (components (globalRegistry s0)) (Iface reg) = None"
        using True by (simp_all add: register_ok_iff)
      have A: "lookup (components (globalRegistry ?s1)) (Iface r) = None \<longleftrightarrow>
               Iface r \<noteq> Iface reg \<and> lookup (components (globalRegistry s0)) (Iface r) = None" for r
        by (simp add: lookup_register_ok[OF True])
      have B: "Iface reg \<notin> Iface ` set regs \<longleftrightarrow> (\<forall>r \<in> set regs. Iface r \<noteq> Iface reg)"
        by (auto simp: image_iff)
      show ?thesis unfolding A by (simp add: v l B) blast
    qed
    finally show ?thesis .
  next
    case False
    then have "\<And>s. Register reg s0 \<noteq> Inr s" by (simp add: Register_Inr)
    then obtain e where "Register reg s0 = Inl e"
      by (cases "Register reg s0") blast+
    then have "\<not> (\<exists>s. RegisterAll (reg # regs) s0 = Inr s)"
      by simp
    moreover have "\<not> (verifyRegistration reg = None \<and>
        lookup (components (globalRegistry s0)) (Iface reg) = None)"
      using False by (simp add: register_ok_iff)
    ultimately show ?thesis by auto
  qed
qed

lemma RegisterAll_perm:
  assumes "RegisterAll regs s0 = Inr s" and "mset regs' = mset regs"
  shows "\<exists>s'. RegisterAll regs' s0 = Inr s'"
proof -
  from assms(2) have "set regs' = set regs" by (metis set_mset_mset)
  moreover have "distinct (map Iface regs') = distinct (map Iface regs)"
  proof -
    have "mset (map Iface regs') = mset (map Iface regs)" using assms(2) by (metis mset_map)
    then show ?thesis by (rule mset_eq_imp_distinct_iff)
  qed
  moreover from assms(1) have "\<exists>s. RegisterAll regs s0 = Inr s" by blast
  then have "(\<forall>r \<in> set regs. verifyRegistration r = None \<and>
        lookup (components (globalRegistry s0)) (Iface r) = None)
     \<and> distinct (map Iface regs)"
    by (rule iffD1[OF RegisterAll_ok_iff])
  ultimately have "(\<forall>r \<in> set regs'. verifyRegistration r = None \<and>
        lookup (components (globalRegistry s0)) (Iface r) = None)
     \<and> distinct (map Iface regs')"
    by simp
  then show ?thesis by (rule iffD2[OF RegisterAll_ok_iff])
qed

lemma CallGraph_RegisterAll:
  assumes "RegisterAll regs initState = Inr s"
  shows "\<exists>es. CallGraph order s = Inr es \<and> mset es = mset (concat (map edgesOf regs))"
proof -
  from RegisterAll_stored[OF assms registryInv_init]
  have w: "registryInv s"
    and m: "mset (map (\<lambda>e. heap s (snd e)) (entries (components (globalRegistry s)))) = mset regs"
    by (simp_all add: initState_def entries_def)
  have "mset (map (heap s) (allComponents order s)) = mset regs"
  proof -
    have "mset (map (heap s) (allComponents order s)) =
            image_mset (heap s) (mset (allComponents order s))"
      by simp
    also have "\<dots> = image_mset (heap s) (mset (map snd (entries (components (globalRegistry s)))))"
      by (simp only: mset_allComponents)
    also have "\<dots> = mset (map (\<lambda>e. heap s (snd e)) (entries (components (globalRegistry s))))"
      by (simp add: multiset.map_comp comp_def)
    finally show ?thesis using m by simp
  qed
  then have "mset (concat (map edgesOf (map (heap s) (allComponents order s)))) =
             mset (concat (map edgesOf regs))"
    by (rule mset_concat_perm)
  then show ?thesis by (simp add: CallGraph_of_inv[OF w] comp_def)
qed

subsection \<open>The example components, evaluated\<close>

lemmas example_defs =
  regA_def regB_def regA2_def regNoServer_def regNoReflect_def regBasA_def regOnlyIface_def
  regC_def ifaceA_def ifaceB_def ifaceC_def implA_def implB_def implC_def refA_def refB_def
  zeroRegistration_def

lemma verify_regA: "verifyRegistration regA = None"
  by (simp add: verifyRegistration_def example_defs)

lemma verify_regB: "verifyRegistration regB = None"
  by (simp add: verifyRegistration_def example_defs)

lemma register_regA_init: "register regA initState = (None, stateA)"
  by (simp add: register_def verify_regA)
     (simp add: initState_def stateA_def lookup_def entries_def regA_def)

lemma register_regB_stateA: "register regB stateA = (None, stateAB)"
  by (simp add: register_def verify_regB)
     (simp add: stateA_def stateAB_def lookup_def entries_def regA_def regB_def ifaceA_def
        ifaceB_def)

lemma registerSeq_A: "registerSeq [regA] initState = stateA"
  by (simp add: registerSeq_def register_regA_init)

lemma registerSeq_AB: "registerSeq [regA, regB] initState = stateAB"
  by (simp add: registerSeq_def register_regA_init register_regB_stateA)

lemma RegisterAll_AB: "RegisterAll [regA, regB] initState = Inr stateAB"
  by (simp add: Register_def register_regA_init register_regB_stateA)

lemma verify_regC: "verifyRegistration regC = None"
  by (simp add: verifyRegistration_def example_defs)

lemma register_regC_stateAB: "register regC stateAB = (None, stateABC)"
  by (simp add: register_def verify_regC)
     (simp add: stateAB_def stateABC_def lookup_def entries_def regA_def regB_def regC_def
        ifaceA_def ifaceB_def ifaceC_def)

lemma RegisterAll_ABC: "RegisterAll [regA, regB, regC] initState = Inr stateABC"
  by (simp add: Register_def register_regA_init register_regB_stateA register_regC_stateAB)

lemma edgesOf_regA: "edgesOf regA = []"
  by (simp add: edgesOf_def dependencyReferences_def regA_def implA_def)

lemma edgesOf_regB: "edgesOf regB = [edgeBA, edgeBA]"
  by (simp add: edgesOf_def dependencyReferences_def regB_def implB_def refA_def edgeBA_def)

lemma edgesOf_regC: "edgesOf regC = [edgeCB]"
  by (simp add: edgesOf_def dependencyReferences_def regC_def implC_def refB_def edgeCB_def)

text \<open>The loops of the code, run on the three components in the order of registration.\<close>

lemma CallGraph_stateABC: "CallGraph [] stateABC = Inr [edgeBA, edgeBA, edgeCB]"
  by (simp add: CallGraph_def Registered_def allComponents_def stateABC_def entries_def
        regA_def regB_def regC_def implA_def implB_def implC_def refA_def refB_def
        refCallee_def HasPrefix_def edgeBA_def edgeCB_def)

lemma register_regNoServer:
  "register regNoServer s = (Some (RegisterErr ''app/A'' (ErrorsNew ''nil ServerStubFn'')), s)"
  by (simp add: register_def verifyRegistration_def example_defs)

lemma verify_regOnlyIface:
  "verifyRegistration regOnlyIface = Some (ErrorsNew ''missing implementation type'')"
  by (simp add: verifyRegistration_def example_defs)

lemma find_stateA: "find_registry ''app/A'' stateA = Some 0"
  by (simp add: find_registry_def lookup_def stateA_def)

lemma heap_stateA: "heap stateA 0 = regA"
  by (simp add: stateA_def)

section \<open>Registration\<close>

text \<open>
  C9. The validator checks, in this order, that the interface descriptor is present, that
  it is of interface kind, that the implementation descriptor is present, that it is of
  struct kind, and that the local, the client and the server stub factory are present. It
  returns the error of the first check that fails, so a candidate that violates several
  checks gets the error of the earliest one, and it returns no error exactly when every
  check passes.
\<close>

theorem verifyRegistration_first_failure:
  "verifyRegistration reg = firstFailure validatorChecks reg
   \<and> (\<forall>i < length validatorChecks.
        \<not> fst (validatorChecks ! i) reg \<and> (\<forall>j < i. fst (validatorChecks ! j) reg)
          \<longrightarrow> verifyRegistration reg = Some (snd (validatorChecks ! i)))
   \<and> (verifyRegistration reg = None \<longleftrightarrow> (\<forall>c \<in> set validatorChecks. fst c reg))"
proof -
  have eq: "verifyRegistration reg = firstFailure validatorChecks reg"
    by (rule verify_first_failure)
  have first: "verifyRegistration reg = Some (snd (validatorChecks ! i))"
    if "i < length validatorChecks" "\<not> fst (validatorChecks ! i) reg"
       "\<forall>j < i. fst (validatorChecks ! j) reg" for i
  proof -
    have "List.find (\<lambda>c. \<not> fst c reg) validatorChecks = Some (validatorChecks ! i)"
      using that by (simp add: find_Some_iff) blast
    then show ?thesis by (simp add: eq firstFailure_def)
  qed
  have none: "verifyRegistration reg = None \<longleftrightarrow> (\<forall>c \<in> set validatorChecks. fst c reg)"
    by (simp add: eq firstFailure_def find_None_iff) force
  from eq first none show ?thesis by blast
qed

text \<open>Witness for C9: a candidate with only its interface set violates four checks; the
  error is that of the third check of the list, the first one it fails.\<close>

theorem verifyRegistration_first_failure_witness:
  "\<not> fst (validatorChecks ! 2) regOnlyIface \<and> \<not> fst (validatorChecks ! 4) regOnlyIface
   \<and> fst (validatorChecks ! 0) regOnlyIface \<and> fst (validatorChecks ! 1) regOnlyIface
   \<and> verifyRegistration regOnlyIface = Some (ErrorsNew ''missing implementation type'')"
proof -
  have len: "(2::nat) < length validatorChecks" by (simp add: validatorChecks_def)
  have f2: "\<not> fst (validatorChecks ! 2) regOnlyIface"
    and f4: "\<not> fst (validatorChecks ! 4) regOnlyIface"
    and p0: "fst (validatorChecks ! 0) regOnlyIface"
    and p1: "fst (validatorChecks ! 1) regOnlyIface"
    by (simp_all add: validatorChecks_def example_defs)
  have before: "\<forall>j < 2. fst (validatorChecks ! j) regOnlyIface"
  proof (intro allI impI)
    fix j :: nat assume "j < 2"
    then have "j = 0 \<or> j = 1" by arith
    then show "fst (validatorChecks ! j) regOnlyIface" using p0 p1 by auto
  qed
  have e: "snd (validatorChecks ! 2) = ErrorsNew ''missing implementation type''"
    by (simp add: validatorChecks_def)
  from verifyRegistration_first_failure[of regOnlyIface] len f2 before
  have "verifyRegistration regOnlyIface = Some (snd (validatorChecks ! 2))" by blast
  with f2 f4 p0 p1 e show ?thesis by simp
qed

text \<open>
  C4 (amended). For every candidate that fails validation, \<^verbatim>\<open>register\<close> returns an error that
  wraps the validator's error under the prefix \<^verbatim>\<open>Register("name")\<close>, and the state of the
  registry (both indexes, hence its size) is the same before and after the call.
\<close>

theorem register_invalid_keeps_state:
  assumes "verifyRegistration reg = Some e"
  shows "register reg s = (Some (RegisterErr (Name reg) e), s)
     \<and> components (globalRegistry (snd (register reg s))) = components (globalRegistry s)
     \<and> byName (globalRegistry (snd (register reg s))) = byName (globalRegistry s)
     \<and> length (allComponents order (snd (register reg s))) = length (allComponents order s)"
  by (simp add: register_invalid[OF assms])

text \<open>Counterexample to C4 as stated: the error that \<^verbatim>\<open>register\<close> returns is not the
  validator's error itself.\<close>

theorem register_invalid_error_counterexample:
  "verifyRegistration regNoServer = Some (ErrorsNew ''nil ServerStubFn'')
   \<and> fst (register regNoServer initState) =
       Some (RegisterErr ''app/A'' (ErrorsNew ''nil ServerStubFn''))
   \<and> fst (register regNoServer initState) \<noteq> verifyRegistration regNoServer"
  by (simp add: register_regNoServer) (simp add: verifyRegistration_def example_defs)

text \<open>Witness for C4.\<close>

theorem register_invalid_keeps_state_witness:
  "verifyRegistration regOnlyIface = Some (ErrorsNew ''missing implementation type'')
   \<and> register regOnlyIface stateAB =
       (Some (RegisterErr ''app/X'' (ErrorsNew ''missing implementation type'')), stateAB)"
  using register_invalid_keeps_state[OF verify_regOnlyIface, of stateAB "[]"]
  by (simp add: verify_regOnlyIface) (simp add: example_defs)

text \<open>
  C3 (amended). For every candidate in which the local, the client or the server stub
  factory is absent, \<^verbatim>\<open>register\<close> rejects the candidate and leaves the state as it is, and
  after any sequence of \<^verbatim>\<open>register\<close> calls no entry of either index is that candidate.
\<close>

theorem register_rejects_missing_stub:
  assumes "LocalStubFn reg = None \<or> ClientStubFn reg = None \<or> ServerStubFn reg = None"
  shows "(\<exists>e. register reg s = (Some (RegisterErr (Name reg) e), s))
     \<and> (\<forall>p \<in> snd ` set (entries (components (globalRegistry (registerSeq regs initState)))) \<union>
              snd ` set (entries (byName (globalRegistry (registerSeq regs initState)))).
          heap (registerSeq regs initState) p \<noteq> reg)"
proof -
  from verify_missing_stub[OF assms] obtain e where e: "verifyRegistration reg = Some e"
    by blast
  have 1: "\<exists>e. register reg s = (Some (RegisterErr (Name reg) e), s)"
    using register_invalid[OF e] by blast
  have 2: "heap (registerSeq regs initState) p \<noteq> reg"
    if "p \<in> snd ` set (entries (components (globalRegistry (registerSeq regs initState)))) \<union>
           snd ` set (entries (byName (globalRegistry (registerSeq regs initState))))" for p
  proof
    assume "heap (registerSeq regs initState) p = reg"
    with stored_valid[OF registryInv_registerSeq that] e show False by simp
  qed
  from 1 2 show ?thesis by blast
qed

text \<open>Counterexample to C3 as stated: a candidate without its reflective stub factory is
  accepted and stored.\<close>

theorem register_accepts_missing_reflect_counterexample:
  "ReflectStubFn regNoReflect = None
   \<and> fst (register regNoReflect initState) = None
   \<and> find_registry ''app/A'' (snd (register regNoReflect initState)) = Some 0
   \<and> heap (snd (register regNoReflect initState)) 0 = regNoReflect"
proof -
  have ok: "fst (register regNoReflect initState) = None"
    by (simp add: register_ok_iff verifyRegistration_def example_defs)
       (simp add: lookup_def initState_def)
  have n: "Name regNoReflect = ''app/A''" and r: "ReflectStubFn regNoReflect = None"
    by (simp_all add: example_defs)
  show ?thesis
    using ok r by (simp add: register_ok_state[OF ok] find_registry_def lookup_update n)
                  (simp add: initState_def)
qed

text \<open>Witness for C3: the candidate without server stub factory is rejected, and it is
  not what the registry holds after a sequence of calls that offered it.\<close>

theorem register_rejects_missing_stub_witness:
  "ServerStubFn regNoServer = None
   \<and> register regNoServer stateA =
       (Some (RegisterErr ''app/A'' (ErrorsNew ''nil ServerStubFn'')), stateA)
   \<and> heap (registerSeq [regNoServer, regA] initState) 0 \<noteq> regNoServer"
proof -
  have h: "LocalStubFn regNoServer = None \<or> ClientStubFn regNoServer = None \<or>
           ServerStubFn regNoServer = None"
    by (simp add: example_defs)
  have seq: "registerSeq [regNoServer, regA] initState = stateA"
    by (simp add: registerSeq_def register_regNoServer register_regA_init)
  have mem: "(0::nat) \<in> snd ` set (entries (components (globalRegistry stateA))) \<union>
               snd ` set (entries (byName (globalRegistry stateA)))"
    by (simp add: stateA_def entries_def)
  from register_rejects_missing_stub[OF h, of stateA "[regNoServer, regA]"] mem
  have "heap (registerSeq [regNoServer, regA] initState) 0 \<noteq> regNoServer"
    unfolding seq by blast
  then show ?thesis by (simp add: register_regNoServer) (simp add: example_defs)
qed

text \<open>
  C1 (amended). For every state and every two registrations \<open>R1\<close> and \<open>R2\<close> with the same
  interface descriptor, once \<^verbatim>\<open>register(R1)\<close> has succeeded, \<^verbatim>\<open>register(R2)\<close> leaves the state
  as it is and \<^verbatim>\<open>find\<close> on the name of \<open>R1\<close> still returns \<open>R1\<close>; when \<open>R2\<close> passes validation
  the error is the conflict error, which names the implementation descriptor of \<open>R1\<close> and
  that of \<open>R2\<close>, and when it does not the error is the wrapped validation error.
\<close>

theorem register_duplicate_interface:
  assumes ok: "fst (register R1 s) = None" and eq: "Iface R2 = Iface R1"
  shows "snd (register R2 (snd (register R1 s))) = snd (register R1 s)
    \<and> (\<exists>p. find_registry (Name R1) (snd (register R1 s)) = Some p \<and>
            heap (snd (register R1 s)) p = R1)
    \<and> (verifyRegistration R2 = None \<longrightarrow>
          fst (register R2 (snd (register R1 s))) =
            Some (AlreadyRegistered (Name R2) (Impl R1) (Impl R2)))
    \<and> (\<forall>e. verifyRegistration R2 = Some e \<longrightarrow>
          fst (register R2 (snd (register R1 s))) = Some (RegisterErr (Name R2) e))"
proof -
  let ?s1 = "snd (register R1 s)"
  note st = register_ok_state[OF ok]
  have look: "lookup (components (globalRegistry ?s1)) (Iface R2) = Some (nextAddr s)"
    by (simp add: st eq lookup_update)
  have hp: "heap ?s1 (nextAddr s) = R1" by (simp add: st)
  have f: "find_registry (Name R1) ?s1 = Some (nextAddr s)"
    by (simp add: st find_registry_def lookup_update)
  have a: "fst (register R2 ?s1) \<noteq> None"
    using look by (simp add: register_ok_iff)
  have b: "verifyRegistration R2 = None \<Longrightarrow>
           fst (register R2 ?s1) = Some (AlreadyRegistered (Name R2) (Impl R1) (Impl R2))"
    using look hp by (simp add: register_def)
  have c: "\<And>e. verifyRegistration R2 = Some e \<Longrightarrow>
           fst (register R2 ?s1) = Some (RegisterErr (Name R2) e)"
    by (simp add: register_def)
  show ?thesis using register_fail_state[OF a] f hp b c by blast
qed

text \<open>Counterexample to C1 as stated: a second registration with the interface of the
  first and no server stub factory gets the validation error, not the conflict error.\<close>

theorem register_duplicate_interface_counterexample:
  "Iface regNoServer = Iface regA
   \<and> fst (register regA initState) = None
   \<and> fst (register regNoServer (snd (register regA initState))) =
       Some (RegisterErr ''app/A'' (ErrorsNew ''nil ServerStubFn''))
   \<and> fst (register regNoServer (snd (register regA initState))) \<noteq>
       Some (AlreadyRegistered (Name regNoServer) (Impl regA) (Impl regNoServer))"
  by (simp add: register_regNoServer register_regA_init) (simp add: example_defs)

text \<open>Witness for C1: a second implementation offered for the interface of \<open>A\<close>.\<close>

theorem register_duplicate_interface_witness:
  "fst (register regA initState) = None \<and> Iface regA2 = Iface regA
   \<and> register regA2 stateA = (Some (AlreadyRegistered ''app/A2'' (Some implA) (Some implB)), stateA)
   \<and> (\<exists>p. find_registry ''app/A'' stateA = Some p \<and> heap stateA p = regA)"
proof -
  have h1: "fst (register regA initState) = None" by (simp add: register_regA_init)
  have h2: "Iface regA2 = Iface regA" by (simp add: example_defs)
  have v: "verifyRegistration regA2 = None"
    by (simp add: verifyRegistration_def example_defs)
  have s1: "snd (register regA initState) = stateA" by (simp add: register_regA_init)
  have n: "Name regA = ''app/A''" "Name regA2 = ''app/A2''" "Impl regA = Some implA"
    "Impl regA2 = Some implB"
    by (simp_all add: regA_def regA2_def)
  from register_duplicate_interface[OF h1 h2] v
  have "snd (register regA2 stateA) = stateA"
    and "fst (register regA2 stateA) = Some (AlreadyRegistered ''app/A2'' (Some implA) (Some implB))"
    and "\<exists>p. find_registry ''app/A'' stateA = Some p \<and> heap stateA p = regA"
    unfolding s1 n by blast+
  with h1 h2 show ?thesis by (simp add: prod_eq_iff)
qed

text \<open>
  C10. Registration does not constrain the name: whether \<^verbatim>\<open>register\<close> accepts a candidate
  does not depend on its name, the validator's verdict does not either, and when the
  candidate is accepted under some name it is accepted under every name \<open>n\<close>, the empty
  string included, after which \<^verbatim>\<open>find\<close> on \<open>n\<close> returns the stored record.
\<close>

theorem register_any_name:
  "verifyRegistration (reg\<lparr>Name := n\<rparr>) = verifyRegistration reg
   \<and> (fst (register (reg\<lparr>Name := n\<rparr>) s) = None \<longleftrightarrow> fst (register reg s) = None)
   \<and> (fst (register reg s) = None \<longrightarrow>
        (\<exists>p. find_registry n (snd (register (reg\<lparr>Name := n\<rparr>) s)) = Some p \<and>
             heap (snd (register (reg\<lparr>Name := n\<rparr>) s)) p = reg\<lparr>Name := n\<rparr>))"
proof -
  have a: "(fst (register (reg\<lparr>Name := n\<rparr>) s) = None) = (fst (register reg s) = None)"
    by (simp add: register_ok_iff verify_name)
  have b: "\<exists>p. find_registry n (snd (register (reg\<lparr>Name := n\<rparr>) s)) = Some p \<and>
             heap (snd (register (reg\<lparr>Name := n\<rparr>) s)) p = reg\<lparr>Name := n\<rparr>"
    if "fst (register reg s) = None"
  proof -
    from that a have ok: "fst (register (reg\<lparr>Name := n\<rparr>) s) = None" by simp
    show ?thesis
      by (simp add: register_ok_state[OF ok] find_registry_def lookup_update)
  qed
  from a b verify_name show ?thesis by blast
qed

text \<open>Witness for C10: \<open>A\<close> registered under the empty name.\<close>

theorem register_any_name_witness:
  "fst (register regA initState) = None
   \<and> fst (register (regA\<lparr>Name := []\<rparr>) initState) = None
   \<and> (\<exists>p. find_registry [] (snd (register (regA\<lparr>Name := []\<rparr>) initState)) = Some p \<and>
           heap (snd (register (regA\<lparr>Name := []\<rparr>) initState)) p = regA\<lparr>Name := []\<rparr>)"
proof -
  have h: "fst (register regA initState) = None" by (simp add: register_regA_init)
  from register_any_name[where reg = regA and n = "[]" and s = initState] h show ?thesis by blast
qed

text \<open>
  C2 (amended). After any sequence of \<^verbatim>\<open>register\<close> calls on the empty registry: every entry
  of the name index points to a registration with that name which is also, as the same
  instance, the entry of the interface index for its interface; every entry of the interface
  index points to a registration with that interface whose name is a key of the name index;
  and when the registrations of the interface index have pairwise distinct names, the two
  indexes hold exactly the same instances.
\<close>

theorem indexes_after_registerSeq:
  assumes "s = registerSeq regs initState"
  shows "(\<forall>n p. lookup (byName (globalRegistry s)) n = Some p \<longrightarrow>
            Name (heap s p) = n \<and>
            lookup (components (globalRegistry s)) (Iface (heap s p)) = Some p)
      \<and> (\<forall>k p. lookup (components (globalRegistry s)) k = Some p \<longrightarrow>
            Iface (heap s p) = k \<and>
            lookup (byName (globalRegistry s)) (Name (heap s p)) \<noteq> None)
      \<and> (distinct (map (\<lambda>e. Name (heap s (snd e))) (entries (components (globalRegistry s)))) \<longrightarrow>
            set (map snd (entries (components (globalRegistry s)))) =
            set (map snd (entries (byName (globalRegistry s)))))"
  unfolding assms by (rule indexes_of_inv[OF registryInv_registerSeq])

text \<open>Counterexample to C2 as stated: two components with different interfaces and the
  same name are both accepted; the interface index then holds both instances and the name
  index only the second.\<close>

theorem indexes_same_name_counterexample:
  "fst (register regA initState) = None
   \<and> fst (register regBasA (snd (register regA initState))) = None
   \<and> Name regBasA = Name regA \<and> Iface regBasA \<noteq> Iface regA
   \<and> map snd (entries (components (globalRegistry (registerSeq [regA, regBasA] initState)))) = [0, 1]
   \<and> map snd (entries (byName (globalRegistry (registerSeq [regA, regBasA] initState)))) = [1]"
proof -
  have v: "verifyRegistration regBasA = None"
    by (simp add: verifyRegistration_def example_defs)
  have l: "lookup (components (globalRegistry stateA)) (Iface regBasA) = None"
    by (simp add: lookup_def stateA_def example_defs)
  have ok: "fst (register regBasA stateA) = None"
    by (simp add: register_ok_iff v l)
  have q: "registerSeq [regA, regBasA] initState = snd (register regBasA stateA)"
    by (simp add: registerSeq_def register_regA_init)
  have c: "map snd (entries (components (globalRegistry (snd (register regBasA stateA))))) = [0, 1]"
    by (simp add: register_ok_state[OF ok] entries_Some) (simp add: stateA_def entries_def example_defs)
  have b: "map snd (entries (byName (globalRegistry (snd (register regBasA stateA))))) = [1]"
    by (simp add: register_ok_state[OF ok] entries_Some) (simp add: stateA_def entries_def example_defs)
  have n: "Name regBasA = Name regA \<and> Iface regBasA \<noteq> Iface regA"
    by (simp add: example_defs)
  show ?thesis using ok c b n by (simp add: q register_regA_init)
qed

text \<open>Witness for C2: after \<open>A\<close> and \<open>B\<close> the name \<^verbatim>\<open>app/B\<close> and the interface of \<open>B\<close> lead to
  the same instance, and the indexes hold the same instances.\<close>

theorem indexes_after_registerSeq_witness:
  "lookup (byName (globalRegistry stateAB)) ''app/B'' = Some 1
   \<and> Name (heap stateAB 1) = ''app/B''
   \<and> lookup (components (globalRegistry stateAB)) (Iface (heap stateAB 1)) = Some 1
   \<and> set (map snd (entries (components (globalRegistry stateAB)))) =
     set (map snd (entries (byName (globalRegistry stateAB))))"
proof -
  have l: "lookup (byName (globalRegistry stateAB)) ''app/B'' = Some 1"
    by (simp add: lookup_def stateAB_def)
  have d: "distinct (map (\<lambda>e. Name (heap stateAB (snd e)))
             (entries (components (globalRegistry stateAB))))"
    by (simp add: stateAB_def entries_def regA_def regB_def)
  from indexes_after_registerSeq[OF registerSeq_AB[symmetric]] l d
  show ?thesis by blast
qed

text \<open>
  C8. The sequence returned by \<^verbatim>\<open>list\<close> is a snapshot. In every state reached by
  \<^verbatim>\<open>register\<close> calls, a later \<^verbatim>\<open>register\<close> call changes no registration that an element of the
  returned sequence points to; the sequence has one element for each entry of the
  interface index at the time of the call, and a \<^verbatim>\<open>list\<close> call after a successful
  registration returns one element more.
\<close>

theorem allComponents_snapshot:
  assumes "s = registerSeq regs initState"
  shows "map (heap (snd (register reg s))) (allComponents order s) =
           map (heap s) (allComponents order s)
     \<and> length (allComponents order s) = length (entries (components (globalRegistry s)))
     \<and> (fst (register reg s) = None \<longrightarrow>
          length (allComponents order' (snd (register reg s))) =
            Suc (length (allComponents order s)))"
  unfolding assms by (rule snapshot_of_inv[OF registryInv_registerSeq])

text \<open>Witness for C8: the snapshot taken after \<open>A\<close>, and \<open>B\<close> registered afterwards.\<close>

theorem allComponents_snapshot_witness:
  "allComponents [] stateA = [0] \<and> fst (register regB stateA) = None
   \<and> map (heap (snd (register regB stateA))) (allComponents [] stateA) = [regA]
   \<and> length (allComponents [] (snd (register regB stateA))) = 2"
proof -
  have a: "allComponents [] stateA = [0]"
    by (simp add: allComponents_def stateA_def entries_def)
  have ok: "fst (register regB stateA) = None" by (simp add: register_regB_stateA)
  from allComponents_snapshot[OF registerSeq_A[symmetric], of regB "[]" "[]"] ok
  show ?thesis by (simp add: a heap_stateA)
qed

section \<open>Configuration validation\<close>

text \<open>
  C6. For every state and every configuration text, \<^verbatim>\<open>validateConfig\<close> returns success when
  the name is not registered.
\<close>

theorem ComponentConfigValidator_unregistered:
  "find_registry path s = None \<Longrightarrow>
     ComponentConfigValidator Config ParseConfigSection path cfg s = Inr None"
  by (simp add: ComponentConfigValidator_def)

text \<open>Witness for C6.\<close>

theorem ComponentConfigValidator_unregistered_witness:
  "find_registry ''unregistered'' stateA = None
   \<and> ComponentConfigValidator noConfig parseAny ''unregistered'' ''anything'' stateA = Inr None"
proof -
  have h: "find_registry ''unregistered'' stateA = None"
    by (simp add: find_registry_def lookup_def stateA_def)
  from ComponentConfigValidator_unregistered[OF h] h show ?thesis by blast
qed

lemma find_registered_distinct_names:
  assumes inv: "registryInv s"
    and d: "distinct (map (\<lambda>e. Name (heap s (snd e))) (entries (components (globalRegistry s))))"
    and p: "p \<in> set (allComponents order s)"
  shows "find_registry (Name (heap s p)) s = Some p"
proof -
  let ?C = "entries (components (globalRegistry s))"
  let ?N = "entries (byName (globalRegistry s))"
  from indexes_of_inv[OF inv] d have "set (map snd ?C) = set (map snd ?N)" by blast
  moreover from p have "p \<in> set (map snd ?C)" by (simp add: set_allComponents)
  ultimately have "p \<in> set (map snd ?N)" by simp
  then obtain n where m: "(n, p) \<in> set ?N" by auto
  from inv m have n: "Name (heap s p) = n" unfolding registryInv_def by fastforce
  from inv have "distinct (map fst ?N)" by (simp add: registryInv_def)
  with m have "lookup (byName (globalRegistry s)) n = Some p" by (simp add: lookup_set)
  with n show ?thesis by (simp add: find_registry_def)
qed

lemma resolved_no_config:
  assumes inv: "registryInv s" and f: "find_registry path s = Some info"
  shows "\<exists>impl. Impl (heap s info) = Some impl \<and> Name (heap s info) = path \<and>
           (Config impl = None \<longrightarrow>
              (\<forall>cfg. ComponentConfigValidator Config ParseConfigSection path cfg s =
                 Inr (Some (UnexpectedConfig path (Iface (heap s info))))))"
proof -
  from f have l: "lookup (byName (globalRegistry s)) path = Some info"
    by (simp add: find_registry_def)
  from inv have "distinct (map fst (entries (byName (globalRegistry s))))"
    by (simp add: registryInv_def)
  with l have m: "(path, info) \<in> set (entries (byName (globalRegistry s)))"
    by (simp add: lookup_set)
  then have "snd (path, info) \<in> snd ` set (entries (byName (globalRegistry s)))"
    by (rule imageI)
  then have "info \<in> snd ` set (entries (components (globalRegistry s))) \<union>
               snd ` set (entries (byName (globalRegistry s)))"
    by simp
  from stored_valid[OF inv this] obtain impl where i: "Impl (heap s info) = Some impl"
    by (cases "Iface (heap s info)"; cases "Impl (heap s info)")
       (simp_all add: verifyRegistration_def split: if_splits)
  from indexes_of_inv[OF inv, THEN conjunct1, rule_format, OF l]
  have n: "Name (heap s info) = path" by (rule conjunct1)
  show ?thesis
  proof (intro exI[of _ impl] conjI impI allI)
    show "Impl (heap s info) = Some impl" by (rule i)
    show "Name (heap s info) = path" by (rule n)
    fix cfg
    assume "Config impl = None"
    then show "ComponentConfigValidator Config ParseConfigSection path cfg s =
          Inr (Some (UnexpectedConfig path (Iface (heap s info))))"
      by (simp add: ComponentConfigValidator_def f i n)
  qed
qed

lemma registerSeq_shadow: "registerSeq [regA, regBasA] initState = stateShadow"
proof -
  have v: "verifyRegistration regBasA = None"
    by (simp add: verifyRegistration_def example_defs)
  have "register regBasA stateA = (None, stateShadow)"
    by (simp add: register_def v)
       (simp add: stateA_def stateShadow_def lookup_def entries_def regA_def regB_def
          regBasA_def ifaceA_def ifaceB_def)
  then show ?thesis by (simp add: registerSeq_def register_regA_init)
qed

text \<open>
  C7 (amended). In every state reached by \<^verbatim>\<open>register\<close> calls, when \<^verbatim>\<open>find\<close> resolves a name to
  a registration whose implementation declares no configuration, \<^verbatim>\<open>validateConfig\<close> on that
  name returns the error that names the component and its interface, whatever the
  configuration text, the empty text included. When the registered components have
  pairwise distinct names, every registered component is the one its name resolves to.
\<close>

theorem ComponentConfigValidator_no_config:
  assumes "s = registerSeq regs initState"
  shows "(\<forall>path info. find_registry path s = Some info \<longrightarrow>
            (\<exists>impl. Impl (heap s info) = Some impl \<and> Name (heap s info) = path \<and>
               (Config impl = None \<longrightarrow>
                  (\<forall>cfg. ComponentConfigValidator Config ParseConfigSection path cfg s =
                     Inr (Some (UnexpectedConfig path (Iface (heap s info))))))))
     \<and> (distinct (map (\<lambda>e. Name (heap s (snd e))) (entries (components (globalRegistry s)))) \<longrightarrow>
          (\<forall>p \<in> set (allComponents order s). find_registry (Name (heap s p)) s = Some p))"
proof -
  have inv: "registryInv s" unfolding assms by (rule registryInv_registerSeq)
  show ?thesis
  proof (intro conjI allI impI ballI)
    fix path info assume "find_registry path s = Some info"
    then show "\<exists>impl. Impl (heap s info) = Some impl \<and> Name (heap s info) = path \<and>
               (Config impl = None \<longrightarrow>
                  (\<forall>cfg. ComponentConfigValidator Config ParseConfigSection path cfg s =
                     Inr (Some (UnexpectedConfig path (Iface (heap s info))))))"
      by (rule resolved_no_config[OF inv])
  next
    fix p
    assume "distinct (map (\<lambda>e. Name (heap s (snd e))) (entries (components (globalRegistry s))))"
      and "p \<in> set (allComponents order s)"
    then show "find_registry (Name (heap s p)) s = Some p"
      by (rule find_registered_distinct_names[OF inv])
  qed
qed

text \<open>Counterexample to C7 as stated. With the empty configuration text the result is the
  same error, not success. And a registered component without configuration whose name a
  later registration has taken is not judged at all: \<open>A\<close> is still listed, but its name
  leads to the later record, whose configuration is accepted.\<close>

theorem ComponentConfigValidator_empty_counterexample:
  "fst (register regA initState) = None
   \<and> find_registry ''app/A'' (snd (register regA initState)) = Some 0
   \<and> Impl (heap (snd (register regA initState)) 0) = Some implA \<and> noConfig implA = None
   \<and> ComponentConfigValidator noConfig parseAny ''app/A'' [] (snd (register regA initState)) =
       Inr (Some (UnexpectedConfig ''app/A'' (Some ifaceA)))
   \<and> allComponents [] (registerSeq [regA, regBasA] initState) = [0, 1]
   \<and> heap (registerSeq [regA, regBasA] initState) 0 = regA \<and> configOnlyB implA = None
   \<and> ComponentConfigValidator configOnlyB parseAny (Name regA) ''x = 1''
        (registerSeq [regA, regBasA] initState) = Inr None"
proof -
  have c: "noConfig implA = None" by (simp add: noConfig_def)
  have i: "Impl (heap stateA 0) = Some implA" "Name (heap stateA 0) = ''app/A''"
    "Iface (heap stateA 0) = Some ifaceA"
    by (simp_all add: heap_stateA regA_def)
  have 1: "ComponentConfigValidator noConfig parseAny ''app/A'' [] stateA =
          Inr (Some (UnexpectedConfig ''app/A'' (Some ifaceA)))"
    by (simp add: ComponentConfigValidator_def find_stateA i c)
  have l: "allComponents [] stateShadow = [0, 1]"
    by (simp add: allComponents_def stateShadow_def entries_def)
  have h: "heap stateShadow 0 = regA" by (simp add: stateShadow_def)
  have cb: "configOnlyB implA = None" "configOnlyB implB = Some ()"
    by (simp_all add: configOnlyB_def implA_def implB_def)
  have f: "find_registry (Name regA) stateShadow = Some (Suc 0)"
    by (simp add: find_registry_def lookup_def stateShadow_def regA_def)
  have ib: "Impl (heap stateShadow (Suc 0)) = Some implB"
    by (simp add: stateShadow_def regBasA_def regB_def)
  have p: "parseAny (Name regA) [] [(Name regA, ''x = 1'')] () = None"
    by (simp add: parseAny_def)
  have 2: "ComponentConfigValidator configOnlyB parseAny (Name regA) ''x = 1'' stateShadow =
             Inr None"
    by (simp add: ComponentConfigValidator_def f ib cb p)
  from c i 1 l h cb 2 show ?thesis
    by (simp add: register_regA_init find_stateA registerSeq_shadow)
qed

text \<open>Witness for C7: \<open>A\<close> alone is registered, its name resolves to it, and a configuration
  for it is refused.\<close>

theorem ComponentConfigValidator_no_config_witness:
  "find_registry ''app/A'' stateA = Some 0 \<and> noConfig implA = None
   \<and> ComponentConfigValidator noConfig parseAny ''app/A'' ''x = 1'' stateA =
       Inr (Some (UnexpectedConfig ''app/A'' (Some ifaceA)))
   \<and> find_registry (Name (heap stateA 0)) stateA = Some 0"
proof -
  have i: "Impl (heap stateA 0) = Some implA" "Iface (heap stateA 0) = Some ifaceA"
    by (simp_all add: heap_stateA regA_def)
  have c: "noConfig implA = None" by (simp add: noConfig_def)
  have d: "distinct (map (\<lambda>e. Name (heap stateA (snd e)))
             (entries (components (globalRegistry stateA))))"
    by (simp add: stateA_def entries_def)
  have m: "(0::nat) \<in> set (allComponents [] stateA)"
    by (simp add: allComponents_def stateA_def entries_def)
  note t = ComponentConfigValidator_no_config[OF registerSeq_A[symmetric],
      where Config = noConfig and ParseConfigSection = parseAny and order = "[]"]
  note t1 = t[THEN conjunct1, rule_format, OF find_stateA]
  have t2: "find_registry (Name (heap stateA 0)) stateA = Some 0"
    by (rule t[THEN conjunct2, rule_format, OF d m])
  from t1 show ?thesis
  proof (elim exE conjE)
    fix impl
    assume a: "Impl (heap stateA 0) = Some impl"
      and r: "noConfig impl = None \<longrightarrow>
                  (\<forall>cfg. ComponentConfigValidator noConfig parseAny ''app/A'' cfg stateA =
                     Inr (Some (UnexpectedConfig ''app/A'' (Iface (heap stateA 0)))))"
    from a i(1) have "impl = implA" by simp
    with r c have "\<forall>cfg. ComponentConfigValidator noConfig parseAny ''app/A'' cfg stateA =
                     Inr (Some (UnexpectedConfig ''app/A'' (Iface (heap stateA 0))))"
      by simp
    then have "ComponentConfigValidator noConfig parseAny ''app/A'' ''x = 1'' stateA =
                     Inr (Some (UnexpectedConfig ''app/A'' (Iface (heap stateA 0))))"
      by (rule spec)
    with c t2 find_stateA show ?thesis unfolding i by simp
  qed
qed

section \<open>Call graph\<close>

text \<open>
  C5. When the components \<open>regs\<close> have been registered, \<^verbatim>\<open>buildCallGraph\<close> returns, whatever
  the iteration order of the index, a sequence that holds exactly the edges of the
  registrations: for each field of a registration's implementation whose type is the
  reference wrapper \<^verbatim>\<open>weaver.Ref[T]\<close>, and for no other field, one edge from the registration's
  interface to the interface the wrapper holds, with multiplicity (two fields that refer to
  the same callee give two edges). When no registration has such a field the sequence is
  empty. Registering the same components in another order succeeds as well and gives the
  same multiset of edges.
\<close>

theorem CallGraph_edges:
  assumes "RegisterAll regs initState = Inr s" and "mset regs' = mset regs"
  shows "\<exists>es. CallGraph order s = Inr es
           \<and> mset es = mset (concat (map edgesOf regs))
           \<and> ((\<forall>reg \<in> set regs. edgesOf reg = []) \<longrightarrow> es = [])
           \<and> (\<exists>s' es'. RegisterAll regs' initState = Inr s' \<and>
                 CallGraph order' s' = Inr es' \<and> mset es' = mset es)"
proof -
  from CallGraph_RegisterAll[OF assms(1)] obtain es
    where es: "CallGraph order s = Inr es" "mset es = mset (concat (map edgesOf regs))"
    by blast
  from RegisterAll_perm[OF assms] obtain s' where s': "RegisterAll regs' initState = Inr s'"
    by blast
  from CallGraph_RegisterAll[OF s'] obtain es'
    where es': "CallGraph order' s' = Inr es'" "mset es' = mset (concat (map edgesOf regs'))"
    by blast
  have "mset es' = mset es" using es(2) es'(2) mset_concat_perm[OF assms(2)] by simp
  moreover have "es = []" if "\<forall>reg \<in> set regs. edgesOf reg = []"
  proof -
    from that have "concat (map edgesOf regs) = []" by simp
    with es(2) show ?thesis by simp
  qed
  ultimately show ?thesis using es s' es' by blast
qed

text \<open>Witness for C5: \<open>A\<close> has no dependency, \<open>B\<close> refers to \<open>A\<close> through two fields, and \<open>C\<close>
  refers to \<open>B\<close> through one field among six that are no reference wrappers. The call graph
  has the edge from \<open>B\<close> to \<open>A\<close> twice and the edge from \<open>C\<close> to \<open>B\<close> once, in any order of
  iteration and of registration.\<close>

theorem CallGraph_edges_witness:
  "RegisterAll [regA, regB, regC] initState = Inr stateABC
   \<and> CallGraph [] stateABC = Inr [edgeBA, edgeBA, edgeCB]
   \<and> (\<exists>es. CallGraph [2, 0] stateABC = Inr es \<and> mset es = {#edgeBA, edgeBA, edgeCB#}
         \<and> (\<exists>s' es'. RegisterAll [regC, regA, regB] initState = Inr s' \<and>
               CallGraph [] s' = Inr es' \<and> mset es' = mset es))"
proof -
  have p: "mset [regC, regA, regB] = mset [regA, regB, regC]" by simp
  have e: "mset (concat (map edgesOf [regA, regB, regC])) = {#edgeBA, edgeBA, edgeCB#}"
    by (simp add: edgesOf_regA edgesOf_regB edgesOf_regC)
  from CallGraph_edges[OF RegisterAll_ABC p, of "[2, 0]" "[]"]
  obtain es where es: "CallGraph [2, 0] stateABC = Inr es"
    and m: "mset es = mset (concat (map edgesOf [regA, regB, regC]))"
    and o: "\<exists>s' es'. RegisterAll [regC, regA, regB] initState = Inr s' \<and>
               CallGraph [] s' = Inr es' \<and> mset es' = mset es"
    by blast
  from m have m': "mset es = {#edgeBA, edgeBA, edgeCB#}" by (simp only: e)
  from es m' o
  have "\<exists>es. CallGraph [2, 0] stateABC = Inr es \<and> mset es = {#edgeBA, edgeBA, edgeCB#}
         \<and> (\<exists>s' es'. RegisterAll [regC, regA, regB] initState = Inr s' \<and>
               CallGraph [] s' = Inr es' \<and> mset es' = mset es)"
    by (intro exI[of _ es] conjI)
  with RegisterAll_ABC CallGraph_stateABC show ?thesis by (intro conjI)
qed

end
